theory Spec2Isabelle
  imports Main "HOL-Library.Word"
begin

section \<open>Quiescent-state based reclamation: the data model\<close>

text \<open>
  The class \<^verbatim>\<open>SingleWriterQuiescentStateReclamation\<close> of \<^verbatim>\<open>cpp/qsbr/qsbr.h\<close>.
  \<^verbatim>\<open>Epoch\<close> is \<^verbatim>\<open>uint64_t\<close>: a 64-bit word whose addition wraps around.
\<close>

type_synonym Epoch = "64 word"

text \<open>\<^verbatim>\<open>std::numeric_limits<Epoch>::max()\<close>\<close>

definition Epoch_max :: Epoch where
  "Epoch_max = - 1"

text \<open>
  A \<^verbatim>\<open>Reader\<close> lives in a node of the \<^verbatim>\<open>std::list\<close> registry. The deleter of a handle
  finds its node by address (\<^verbatim>\<open>&e == r\<close>), so the model keeps the address of the node
  as the reader's identity beside the atomic \<^verbatim>\<open>local_\<close>. The reference \<^verbatim>\<open>global_\<close> always
  points to the counter of the owning instance and is passed as an argument instead.
\<close>

record Reader =
  addr :: nat
  local :: Epoch

text \<open>\<^verbatim>\<open>struct Trash { Epoch epoch; std::variant<...> item; }\<close>, the payload left abstract.\<close>

record 'g Trash =
  epoch :: Epoch
  item :: 'g

record 'g qsbr =
  global_epoch :: Epoch
  readers :: "Reader list"
  garbage :: "'g Trash list"

text \<open>
  A default-constructed instance. The counter starts at 0 in \<^verbatim>\<open>qsbr.h\<close>
  (\<^verbatim>\<open>global_epoch_{0}\<close>) and at 1 in the revision of the class listed in
  \<^verbatim>\<open>cpp/qsbr/README.txt\<close> (\<^verbatim>\<open>global_epoch_{1}\<close>).
\<close>

definition qsbr_init :: "'g qsbr" where
  "qsbr_init = \<lparr>global_epoch = 0, readers = [], garbage = []\<rparr>"

definition qsbr_init_kMagic :: "'g qsbr" where
  "qsbr_init_kMagic = \<lparr>global_epoch = 1, readers = [], garbage = []\<rparr>"

section \<open>Reader handles\<close>

text \<open>\<^verbatim>\<open>void on_quiesce() { local_ = global_.load(); }\<close>\<close>

definition on_quiesce :: "Epoch \<Rightarrow> Reader \<Rightarrow> Reader" where
  "on_quiesce global r = r\<lparr>local := global\<rparr>"

text \<open>\<^verbatim>\<open>Epoch current_epoch() { return local_.load(); }\<close>\<close>

definition current_epoch :: "Reader \<Rightarrow> Epoch" where
  "current_epoch r = local r"

text \<open>
  The constructor \<^verbatim>\<open>Reader(AtomicEpoch& e)\<close>: the node is at address \<open>a\<close>, \<^verbatim>\<open>local_\<close> holds
  no meaningful value (0 here) until the constructor's own \<^verbatim>\<open>on_quiesce()\<close> stores one.
\<close>

definition Reader_ctor :: "nat \<Rightarrow> Epoch \<Rightarrow> Reader" where
  "Reader_ctor a global = on_quiesce global \<lparr>addr = a, local = 0\<rparr>"

section \<open>The operations of the class\<close>

text \<open>\<^verbatim>\<open>size_t pending_garbage() { return garbage_.size(); }\<close>\<close>

definition pending_garbage :: "'g qsbr \<Rightarrow> nat" where
  "pending_garbage s = length (garbage s)"

text \<open>\<^verbatim>\<open>garbage_.emplace_back(Trash{global_epoch_.load(), std::move(g)})\<close>\<close>

definition destroy_later :: "'g \<Rightarrow> 'g qsbr \<Rightarrow> 'g qsbr" where
  "destroy_later g s = s\<lparr>garbage := garbage s @ [\<lparr>epoch = global_epoch s, item = g\<rparr>]\<rparr>"

text \<open>
  \<^verbatim>\<open>create_reader\<close>: \<^verbatim>\<open>readers_.emplace_front(global_epoch_)\<close> constructs the reader in a
  new node at the front of the list; the handle returned points to that node. The
  address \<open>a\<close> of the node is the allocator's choice.
\<close>

definition create_reader :: "nat \<Rightarrow> 'g qsbr \<Rightarrow> 'g qsbr" where
  "create_reader a s = s\<lparr>readers := Reader_ctor a (global_epoch s) # readers s\<rparr>"

text \<open>
  The deleter of the handle:
  \<^verbatim>\<open>readers_.remove_if([&](auto&& e) { return &e == r; })\<close>
\<close>

definition release_reader :: "nat \<Rightarrow> 'g qsbr \<Rightarrow> 'g qsbr" where
  "release_reader a s = s\<lparr>readers := filter (\<lambda>e. addr e \<noteq> a) (readers s)\<rparr>"

text \<open>\<^verbatim>\<open>handle->on_quiesce()\<close> through the handle that points to the node at \<open>a\<close>.\<close>

definition quiesce :: "nat \<Rightarrow> 'g qsbr \<Rightarrow> 'g qsbr" where
  "quiesce a s =
     s\<lparr>readers := map (\<lambda>e. if addr e = a then on_quiesce (global_epoch s) e else e) (readers s)\<rparr>"

text \<open>\<^verbatim>\<open>handle->current_epoch()\<close> through the handle that points to the node at \<open>a\<close>.\<close>

definition handle_epoch :: "nat \<Rightarrow> 'g qsbr \<Rightarrow> Epoch option" where
  "handle_epoch a s = map_option current_epoch (find (\<lambda>e. addr e = a) (readers s))"

text \<open>
  The loop of \<^verbatim>\<open>min_quiesced_epoch\<close>:
  \<^verbatim>\<open>for (...; iter != end; ++iter) min = std::min(min, iter->current_epoch());\<close>
\<close>

fun min_loop :: "Reader list \<Rightarrow> Epoch \<Rightarrow> Epoch" where
  "min_loop [] m = m"
| "min_loop (r # rs) m = min_loop rs (min m (current_epoch r))"

text \<open>
  \<^verbatim>\<open>min_quiesced_epoch\<close>: the loop starts with \<^verbatim>\<open>++iter\<close> on \<^verbatim>\<open>readers_.begin()\<close>, that is
  at the second node of the list. On an empty list \<^verbatim>\<open>begin()\<close> is \<^verbatim>\<open>end()\<close>, the sentinel
  of the circular list, whose successor is the sentinel again, so the loop body does not
  run there either.
\<close>

definition min_quiesced_epoch :: "'g qsbr \<Rightarrow> Epoch" where
  "min_quiesced_epoch s = min_loop (drop 1 (readers s)) Epoch_max"

text \<open>
  The loop of \<^verbatim>\<open>garbage_collect\<close>:
  \<^verbatim>\<open>while (!garbage_.empty() && garbage_.front().epoch < gc_epoch) garbage_.pop_front();\<close>
\<close>

fun pop_while :: "Epoch \<Rightarrow> 'g Trash list \<Rightarrow> 'g Trash list" where
  "pop_while gc_epoch [] = []"
| "pop_while gc_epoch (t # ts) = (if epoch t < gc_epoch then pop_while gc_epoch ts else t # ts)"

text \<open>
  \<^verbatim>\<open>garbage_collect\<close> of \<^verbatim>\<open>qsbr.h\<close>. The result is the returned number and the new state.
  \<^verbatim>\<open>fetch_add(1)\<close> returns the value before the increment.
\<close>

definition garbage_collect :: "'g qsbr \<Rightarrow> Epoch \<times> 'g qsbr" where
  "garbage_collect s =
     (let global = global_epoch s;
          s1 = s\<lparr>global_epoch := global_epoch s + 1\<rparr>;
          gc_epoch = min_quiesced_epoch s1
      in if gc_epoch > 0 \<and> gc_epoch < global then
           (let gc_epoch' = gc_epoch - 1;
                s2 = s1\<lparr>garbage := pop_while gc_epoch' (garbage s1)\<rparr>
            in (if global > gc_epoch' then global - gc_epoch' else 0, s2))
         else (if global > gc_epoch then global - gc_epoch else 0, s1))"

text \<open>
  \<^verbatim>\<open>garbage_collect\<close> of the revision listed in \<^verbatim>\<open>README.txt\<close>: the minimum is taken
  before the increment, an assertion guards it, the lag is \<^verbatim>\<open>kMagic = 128\<close> and the
  number returned outside the trimming branch is 0.
\<close>

datatype error = AssertionFailed

definition kMagic :: Epoch where
  "kMagic = 128"

definition garbage_collect_kMagic :: "'g qsbr \<Rightarrow> error + Epoch \<times> 'g qsbr" where
  "garbage_collect_kMagic s =
     (let gc_epoch = min_quiesced_epoch s;
          global = global_epoch s;
          s1 = s\<lparr>global_epoch := global_epoch s + 1\<rparr>
      in if \<not> (gc_epoch = Epoch_max \<or> gc_epoch \<le> global) then Inl AssertionFailed
         else if gc_epoch > kMagic \<and> gc_epoch < global then
           (let gc_epoch' = gc_epoch - kMagic;
                s2 = s1\<lparr>garbage := pop_while gc_epoch' (garbage s1)\<rparr>
            in Inr (global - gc_epoch', s2))
         else Inr (0, s1))"

section \<open>Sequences of operations\<close>

text \<open>
  The calls a program can make on one instance. A handle is named by the address of its
  node; calling through a handle that is not registered, or registering a node at an
  address that is in use, cannot happen and ends the run with \<open>None\<close>, as does a failed
  assertion. The function \<open>gc\<close> is the revision of \<^verbatim>\<open>garbage_collect\<close> in use.
\<close>

datatype 'g op = Register nat | Unregister nat | Quiesce nat | Retire 'g | Collect

definition registered :: "nat \<Rightarrow> 'g qsbr \<Rightarrow> bool" where
  "registered a s = (a \<in> set (map addr (readers s)))"

fun step :: "('g qsbr \<Rightarrow> error + Epoch \<times> 'g qsbr) \<Rightarrow> 'g qsbr \<Rightarrow> 'g op \<Rightarrow> 'g qsbr option" where
  "step gc s (Register a) = (if registered a s then None else Some (create_reader a s))"
| "step gc s (Unregister a) = (if registered a s then Some (release_reader a s) else None)"
| "step gc s (Quiesce a) = (if registered a s then Some (quiesce a s) else None)"
| "step gc s (Retire g) = Some (destroy_later g s)"
| "step gc s Collect = (case gc s of Inl e \<Rightarrow> None | Inr (n, s') \<Rightarrow> Some s')"

fun run :: "('g qsbr \<Rightarrow> error + Epoch \<times> 'g qsbr) \<Rightarrow> 'g qsbr \<Rightarrow> 'g op list \<Rightarrow> 'g qsbr option" where
  "run gc s [] = Some s"
| "run gc s (x # xs) = (case step gc s x of None \<Rightarrow> None | Some s' \<Rightarrow> run gc s' xs)"

text \<open>\<^verbatim>\<open>garbage_collect\<close> of \<^verbatim>\<open>qsbr.h\<close>, which has no assertion, as an argument of \<open>run\<close>.\<close>

definition gc_h :: "'g qsbr \<Rightarrow> error + Epoch \<times> 'g qsbr" where
  "gc_h s = Inr (garbage_collect s)"

section \<open>Invariants of the garbage queue\<close>

text \<open>
  What every revision of \<^verbatim>\<open>garbage_collect\<close> does when it returns: the counter moves on
  by one and the queue loses entries at its front only.
\<close>

definition advances :: "('g qsbr \<Rightarrow> error + Epoch \<times> 'g qsbr) \<Rightarrow> bool" where
  "advances gc = (\<forall>s n s'. gc s = Inr (n, s') \<longrightarrow>
     global_epoch s' = global_epoch s + 1 \<and> readers s' = readers s
     \<and> (\<exists>k. garbage s' = drop k (garbage s)))"

text \<open>
  The queue is in non-decreasing order of retirement epoch and no entry is tagged with an
  epoch beyond the counter.
\<close>

definition queue_inv :: "'g qsbr \<Rightarrow> bool" where
  "queue_inv s = (sorted (map epoch (garbage s)) \<and> (\<forall>t \<in> set (garbage s). epoch t \<le> global_epoch s))"

text \<open>No reader has observed an epoch beyond the counter.\<close>

definition readers_inv :: "'g qsbr \<Rightarrow> bool" where
  "readers_inv s = (\<forall>r \<in> set (readers s). current_epoch r \<le> global_epoch s)"

section \<open>The minimum as the specification words it\<close>


section \<open>Auxiliary facts\<close>

lemmas qsbr_eval = gc_h_def garbage_collect_def garbage_collect_kMagic_def qsbr_init_def
  qsbr_init_kMagic_def registered_def create_reader_def release_reader_def quiesce_def
  destroy_later_def min_quiesced_epoch_def Reader_ctor_def on_quiesce_def current_epoch_def
  Epoch_max_def kMagic_def pending_garbage_def handle_epoch_def Let_def

lemma pop_while_dropWhile: "pop_while e ts = dropWhile (\<lambda>t. epoch t < e) ts"
  by (induction ts) auto

lemma min_quiesced_epoch_single:
  "length (readers s) = 1 \<Longrightarrow> min_quiesced_epoch s = Epoch_max"
  by (cases "readers s") (auto simp: min_quiesced_epoch_def)

lemma min_quiesced_epoch_global [simp]:
  "min_quiesced_epoch (s\<lparr>global_epoch := g\<rparr>) = min_quiesced_epoch s"
  by (simp add: min_quiesced_epoch_def)

lemma garbage_collect_sentinel:
  "min_quiesced_epoch s = Epoch_max \<Longrightarrow>
     garbage_collect s = (0, s\<lparr>global_epoch := global_epoch s + 1\<rparr>)"
  by (simp add: garbage_collect_def Let_def Epoch_max_def word_order.extremum_strict)

lemma garbage_collect_kMagic_sentinel:
  "min_quiesced_epoch s = Epoch_max \<Longrightarrow>
     garbage_collect_kMagic s = Inr (0, s\<lparr>global_epoch := global_epoch s + 1\<rparr>)"
  by (simp add: garbage_collect_kMagic_def Let_def Epoch_max_def word_order.extremum_strict)

lemma drop_exists: "\<exists>k. pop_while e ts = drop k ts" "\<exists>k. ts = drop k ts"
proof -
  have "pop_while e ts = drop (length (takeWhile (\<lambda>t. epoch t < e) ts)) ts"
    by (simp add: pop_while_dropWhile dropWhile_eq_drop)
  then show "\<exists>k. pop_while e ts = drop k ts" ..
  have "ts = drop 0 ts" by simp
  then show "\<exists>k. ts = drop k ts" ..
qed

lemma garbage_collect_effect:
  "global_epoch (snd (garbage_collect s)) = global_epoch s + 1"
  "readers (snd (garbage_collect s)) = readers s"
  "\<exists>k. garbage (snd (garbage_collect s)) = drop k (garbage s)"
proof -
  show "global_epoch (snd (garbage_collect s)) = global_epoch s + 1"
    by (simp add: garbage_collect_def Let_def)
  show "readers (snd (garbage_collect s)) = readers s"
    by (simp add: garbage_collect_def Let_def)
  show "\<exists>k. garbage (snd (garbage_collect s)) = drop k (garbage s)"
    by (simp add: garbage_collect_def Let_def drop_exists)
qed

lemma garbage_collect_kMagic_effect:
  assumes "garbage_collect_kMagic s = Inr (n, s')"
  shows "global_epoch s' = global_epoch s + 1"
    and "readers s' = readers s"
    and "\<exists>k. garbage s' = drop k (garbage s)"
proof -
  from assms show "global_epoch s' = global_epoch s + 1"
    by (auto simp: garbage_collect_kMagic_def Let_def split: if_splits)
  from assms show "readers s' = readers s"
    by (auto simp: garbage_collect_kMagic_def Let_def split: if_splits)
  from assms show "\<exists>k. garbage s' = drop k (garbage s)"
    by (auto simp: garbage_collect_kMagic_def Let_def drop_exists split: if_splits)
qed

lemma advances_gc_h: "advances gc_h"
  unfolding advances_def gc_h_def
  using garbage_collect_effect by (metis Inr_inject snd_conv)

lemma advances_kMagic: "advances garbage_collect_kMagic"
  unfolding advances_def
  using garbage_collect_kMagic_effect by blast

lemma unat_Epoch_max: "unat (- 1 :: Epoch) = 2 ^ 64 - 1"
  by (simp add: unsigned_minus_1_eq_mask mask_eq_exp_minus_1)

lemma word_inc_unat: "(g :: Epoch) \<noteq> - 1 \<Longrightarrow> unat (g + 1) = unat g + 1"
  by (metis Suc_eq_plus1 add.commute add_eq_0_iff unatSuc)

lemma word_inc_le: "(g :: Epoch) \<noteq> - 1 \<Longrightarrow> g \<le> g + 1"
  by (simp add: word_le_nat_alt word_inc_unat)

lemma queue_inv_destroy_later: "queue_inv s \<Longrightarrow> queue_inv (destroy_later g s)"
  by (auto simp: queue_inv_def destroy_later_def sorted_append)

lemma queue_inv_collect:
  assumes "advances gc" "queue_inv s" "gc s = Inr (n, s')" "global_epoch s \<noteq> - 1"
  shows "queue_inv s'"
proof -
  from assms(1,3) obtain k where g: "global_epoch s' = global_epoch s + 1"
    and d: "garbage s' = drop k (garbage s)"
    unfolding advances_def by blast
  from assms(2) have "sorted (map epoch (drop k (garbage s)))"
    by (simp add: queue_inv_def drop_map [symmetric] sorted_wrt_drop)
  moreover have "epoch t \<le> global_epoch s + 1" if "t \<in> set (drop k (garbage s))" for t
  proof -
    from that have "t \<in> set (garbage s)" by (rule in_set_dropD)
    with assms(2) have "epoch t \<le> global_epoch s" by (simp add: queue_inv_def)
    also have "\<dots> \<le> global_epoch s + 1" using assms(4) by (rule word_inc_le)
    finally show ?thesis .
  qed
  ultimately show ?thesis by (simp add: queue_inv_def g d)
qed

lemma step_queue_inv:
  assumes "advances gc" "queue_inv s" "step gc s x = Some s'"
    and "unat (global_epoch s) + count_list [x] Collect < 2 ^ 64"
  shows "queue_inv s' \<and> unat (global_epoch s') = unat (global_epoch s) + count_list [x] Collect"
proof (cases x)
  case (Register a)
  with assms(2,3) show ?thesis
    by (auto simp: queue_inv_def create_reader_def split: if_splits)
next
  case (Unregister a)
  with assms(2,3) show ?thesis
    by (auto simp: queue_inv_def release_reader_def split: if_splits)
next
  case (Quiesce a)
  with assms(2,3) show ?thesis
    by (auto simp: queue_inv_def quiesce_def split: if_splits)
next
  case (Retire g)
  with assms(2,3) show ?thesis
    using queue_inv_destroy_later [of s g] by (auto simp: destroy_later_def)
next
  case Collect
  with assms(3) obtain n where gc: "gc s = Inr (n, s')"
    by (auto split: sum.splits)
  from assms(4) Collect have "unat (global_epoch s) < 2 ^ 64 - 1" by simp
  then have ne: "global_epoch s \<noteq> - 1" by (auto simp: unat_Epoch_max)
  from assms(1) gc have "global_epoch s' = global_epoch s + 1"
    unfolding advances_def by blast
  with ne have "unat (global_epoch s') = unat (global_epoch s) + 1"
    by (simp add: word_inc_unat)
  moreover have "queue_inv s'" using assms(1,2) gc ne by (rule queue_inv_collect)
  ultimately show ?thesis using Collect by simp
qed

lemma run_queue_inv:
  assumes "advances gc"
  shows "queue_inv s \<Longrightarrow> run gc s ops = Some s' \<Longrightarrow>
     unat (global_epoch s) + count_list ops Collect < 2 ^ 64 \<Longrightarrow>
     queue_inv s' \<and> unat (global_epoch s') = unat (global_epoch s) + count_list ops Collect"
proof (induction ops arbitrary: s)
  case Nil
  then show ?case by simp
next
  case (Cons x ops)
  from Cons.prems(2) obtain s1 where s1: "step gc s x = Some s1" and r: "run gc s1 ops = Some s'"
    by (auto split: option.splits)
  have c: "count_list (x # ops) Collect = count_list [x] Collect + count_list ops Collect"
    by simp
  from Cons.prems(3) have "unat (global_epoch s) + count_list [x] Collect < 2 ^ 64"
    unfolding c by linarith
  with assms Cons.prems(1) s1
  have i1: "queue_inv s1"
    and g1: "unat (global_epoch s1) = unat (global_epoch s) + count_list [x] Collect"
    using step_queue_inv by blast+
  from Cons.prems(3) g1 have "unat (global_epoch s1) + count_list ops Collect < 2 ^ 64"
    unfolding c by linarith
  with Cons.IH [OF i1 r] g1 show ?case unfolding c by simp
qed

text \<open>
  Below the wrap-around no reader is ahead of the counter, so the assertion of the
  revision of \<^verbatim>\<open>README.txt\<close> holds in every state reached from a fresh instance.
\<close>

lemma min_loop_cases: "min_loop rs m = m \<or> (\<exists>r \<in> set rs. min_loop rs m = current_epoch r)"
proof (induction rs arbitrary: m)
  case Nil
  show ?case by simp
next
  case (Cons x rs)
  from Cons.IH [of "min m (current_epoch x)"] show ?case
    by (auto simp: min_def split: if_splits)
qed

lemma min_quiesced_epoch_bound:
  assumes "readers_inv s"
  shows "min_quiesced_epoch s = Epoch_max \<or> min_quiesced_epoch s \<le> global_epoch s"
proof -
  from min_loop_cases [of "drop 1 (readers s)" Epoch_max]
  consider "min_quiesced_epoch s = Epoch_max"
    | r where "r \<in> set (drop 1 (readers s))" "min_quiesced_epoch s = current_epoch r"
    by (auto simp: min_quiesced_epoch_def)
  then show ?thesis
  proof cases
    case 1
    then show ?thesis by simp
  next
    case 2
    from 2(1) have "r \<in> set (readers s)" by (rule in_set_dropD)
    with assms 2(2) show ?thesis by (simp add: readers_inv_def)
  qed
qed

lemma garbage_collect_kMagic_returns:
  "readers_inv s \<Longrightarrow> \<exists>n s'. garbage_collect_kMagic s = Inr (n, s')"
  using min_quiesced_epoch_bound [of s]
  by (auto simp: garbage_collect_kMagic_def Let_def)

lemma step_readers_inv:
  assumes "advances gc" "readers_inv s" "step gc s x = Some s'"
    and "x = Collect \<longrightarrow> global_epoch s \<noteq> - 1"
  shows "readers_inv s'"
proof (cases x)
  case (Register a)
  with assms(2,3) show ?thesis
    by (auto simp: readers_inv_def create_reader_def Reader_ctor_def on_quiesce_def
        current_epoch_def split: if_splits)
next
  case (Unregister a)
  with assms(2,3) show ?thesis
    by (auto simp: readers_inv_def release_reader_def split: if_splits)
next
  case (Quiesce a)
  with assms(2,3) show ?thesis
    by (auto simp: readers_inv_def quiesce_def on_quiesce_def current_epoch_def split: if_splits)
next
  case (Retire g)
  with assms(2,3) show ?thesis by (auto simp: readers_inv_def destroy_later_def)
next
  case Collect
  with assms(3) obtain n where gc: "gc s = Inr (n, s')" by (auto split: sum.splits)
  with assms(1) have g: "global_epoch s' = global_epoch s + 1" and r: "readers s' = readers s"
    unfolding advances_def by blast+
  from assms(4) Collect have "global_epoch s \<le> global_epoch s + 1" by (simp add: word_inc_le)
  with assms(2) show ?thesis unfolding readers_inv_def g r by (auto intro: order_trans)
qed

lemma run_readers_inv:
  assumes "advances gc"
  shows "queue_inv s \<Longrightarrow> readers_inv s \<Longrightarrow> run gc s ops = Some s' \<Longrightarrow>
     unat (global_epoch s) + count_list ops Collect < 2 ^ 64 \<Longrightarrow> readers_inv s'"
proof (induction ops arbitrary: s)
  case Nil
  then show ?case by simp
next
  case (Cons x ops)
  from Cons.prems(3) obtain s1 where s1: "step gc s x = Some s1" and r: "run gc s1 ops = Some s'"
    by (auto split: option.splits)
  have c: "count_list (x # ops) Collect = count_list [x] Collect + count_list ops Collect"
    by simp
  from Cons.prems(4) have b: "unat (global_epoch s) + count_list [x] Collect < 2 ^ 64"
    unfolding c by linarith
  with assms Cons.prems(1) s1
  have i1: "queue_inv s1"
    and g1: "unat (global_epoch s1) = unat (global_epoch s) + count_list [x] Collect"
    using step_queue_inv by blast+
  from b have "x = Collect \<longrightarrow> global_epoch s \<noteq> - 1" by (auto simp: unat_Epoch_max)
  with assms Cons.prems(2) s1 have i2: "readers_inv s1" by (rule step_readers_inv)
  from Cons.prems(4) g1 have "unat (global_epoch s1) + count_list ops Collect < 2 ^ 64"
    unfolding c by linarith
  with Cons.IH [OF i1 i2 r] show ?case by simp
qed

lemma kMagic_assertion_holds_until_wrap:
  assumes "run garbage_collect_kMagic qsbr_init_kMagic ops = Some s"
    and "count_list ops Collect < 2 ^ 64 - 1"
  shows "\<exists>n s'. garbage_collect_kMagic s = Inr (n, s')"
proof -
  have "readers_inv (qsbr_init_kMagic :: 'a qsbr)"
    by (simp add: readers_inv_def qsbr_init_kMagic_def)
  moreover have "unat (global_epoch (qsbr_init_kMagic :: 'a qsbr)) + count_list ops Collect < 2 ^ 64"
    using assms(2) by (simp add: qsbr_init_kMagic_def)
  moreover have "queue_inv (qsbr_init_kMagic :: 'a qsbr)"
    by (simp add: queue_inv_def qsbr_init_kMagic_def)
  ultimately have "readers_inv s"
    using run_readers_inv [OF advances_kMagic] assms(1) by blast
  then show ?thesis by (rule garbage_collect_kMagic_returns)
qed


lemma word_pred_less: "0 < (m :: Epoch) \<Longrightarrow> m - 1 < m"
proof -
  assume "0 < m"
  then have "m \<noteq> 0" by simp
  then have "unat (m - 1) = unat m - 1" by (rule unat_minus_one)
  moreover from \<open>m \<noteq> 0\<close> have "0 < unat m" by (simp add: unat_gt_0)
  ultimately show ?thesis by (simp add: word_less_nat_alt)
qed


lemma garbage_collect_trim:
  assumes "0 < min_quiesced_epoch s" "min_quiesced_epoch s < global_epoch s"
  shows "garbage_collect s =
     (global_epoch s - (min_quiesced_epoch s - 1),
      s\<lparr>global_epoch := global_epoch s + 1,
        garbage := dropWhile (\<lambda>t. epoch t < min_quiesced_epoch s - 1) (garbage s)\<rparr>)"
proof -
  from assms(1) have "min_quiesced_epoch s - 1 < min_quiesced_epoch s"
    by (rule word_pred_less)
  with assms(2) have "min_quiesced_epoch s - 1 < global_epoch s" by simp
  with assms show ?thesis
    by (simp add: garbage_collect_def Let_def pop_while_dropWhile)
qed


lemma queue_inv_init: "queue_inv qsbr_init" "queue_inv qsbr_init_kMagic"
  by (simp_all add: queue_inv_def qsbr_init_def qsbr_init_kMagic_def)

lemma run_append:
  "run gc s (xs @ ys) = (case run gc s xs of None \<Rightarrow> None | Some s' \<Rightarrow> run gc s' ys)"
  by (induction xs arbitrary: s) (auto split: option.splits)

lemma run_collect_no_readers:
  "readers s = [] \<Longrightarrow>
     run gc_h s (replicate n Collect) = Some (s\<lparr>global_epoch := global_epoch s + of_nat n\<rparr>)"
proof (induction n arbitrary: s)
  case 0
  show ?case by simp
next
  case (Suc n)
  from Suc.prems have "min_quiesced_epoch s = Epoch_max"
    by (simp add: min_quiesced_epoch_def)
  then have "step gc_h s Collect = Some (s\<lparr>global_epoch := global_epoch s + 1\<rparr>)"
    by (simp add: gc_h_def garbage_collect_sentinel)
  moreover have "run gc_h (s\<lparr>global_epoch := global_epoch s + 1\<rparr>) (replicate n Collect)
      = Some (s\<lparr>global_epoch := global_epoch s + 1 + of_nat n\<rparr>)"
    using Suc.IH [of "s\<lparr>global_epoch := global_epoch s + 1\<rparr>"] Suc.prems by simp
  ultimately show ?case by (simp add: add.assoc)
qed

lemma run_collect_kMagic_idle:
  "min_quiesced_epoch s \<le> kMagic \<Longrightarrow> min_quiesced_epoch s \<le> global_epoch s \<Longrightarrow>
   unat (global_epoch s) + n < 2 ^ 64 \<Longrightarrow>
     run garbage_collect_kMagic s (replicate n Collect)
       = Some (s\<lparr>global_epoch := global_epoch s + of_nat n\<rparr>)"
proof (induction n arbitrary: s)
  case 0
  show ?case by simp
next
  case (Suc n)
  let ?s1 = "s\<lparr>global_epoch := global_epoch s + 1\<rparr>"
  from Suc.prems(1) have "\<not> kMagic < min_quiesced_epoch s" by simp
  with Suc.prems(2) have st: "step garbage_collect_kMagic s Collect = Some ?s1"
    by (simp add: garbage_collect_kMagic_def Let_def)
  from Suc.prems(3) have ne: "global_epoch s \<noteq> - 1"
    by (auto simp: unat_Epoch_max)
  then have u: "unat (global_epoch ?s1) = unat (global_epoch s) + 1"
    by (simp add: word_inc_unat)
  have "global_epoch s \<le> global_epoch s + 1" using ne by (rule word_inc_le)
  with Suc.prems(2) have le: "min_quiesced_epoch ?s1 \<le> global_epoch ?s1" by simp
  have "run garbage_collect_kMagic ?s1 (replicate n Collect)
      = Some (?s1\<lparr>global_epoch := global_epoch ?s1 + of_nat n\<rparr>)"
    using Suc.prems(1,3) le u by (intro Suc.IH) simp_all
  with st show ?case by (simp add: add.assoc)
qed

lemma handle_epoch_registered: "handle_epoch a s = Some e \<Longrightarrow> registered a s"
  by (auto simp: handle_epoch_def registered_def find_Some_iff)

lemma find_filter_addr:
  "b \<noteq> a \<Longrightarrow> find (\<lambda>e. addr e = a) (filter (\<lambda>e. addr e \<noteq> b) rs) = find (\<lambda>e. addr e = a) rs"
  by (induction rs) auto

lemma current_epoch_eq_local: "current_epoch = local"
  by (rule ext) (simp add: current_epoch_def)

lemma find_map_quiesce:
  "map_option current_epoch
     (find (\<lambda>e. addr e = a) (map (\<lambda>e. if addr e = b then on_quiesce g e else e) rs))
   = (if b = a then map_option (\<lambda>e. g) (find (\<lambda>e. addr e = a) rs)
      else map_option current_epoch (find (\<lambda>e. addr e = a) rs))"
  by (induction rs) (auto simp: on_quiesce_def current_epoch_eq_local)

lemma handle_epoch_quiesce:
  "handle_epoch a (quiesce b s) =
     (if b = a then map_option (\<lambda>e. global_epoch s) (handle_epoch a s) else handle_epoch a s)"
  by (simp add: handle_epoch_def quiesce_def find_map_quiesce option.map_comp comp_def)

lemma handle_epoch_quiesce_registered:
  "registered a s \<Longrightarrow> handle_epoch a (quiesce a s) = Some (global_epoch s)"
proof -
  assume "registered a s"
  then obtain r where "find (\<lambda>e. addr e = a) (readers s) = Some r"
    by (cases "find (\<lambda>e. addr e = a) (readers s)")
      (auto simp: registered_def find_None_iff)
  then have "handle_epoch a s = Some (current_epoch r)" by (simp add: handle_epoch_def)
  then show ?thesis by (simp add: handle_epoch_quiesce)
qed

lemma step_keeps_snapshot:
  assumes "x \<noteq> Collect" "x \<noteq> Unregister a" "step gc s x = Some s'"
    and "handle_epoch a s = Some (global_epoch s)"
  shows "handle_epoch a s' = Some (global_epoch s) \<and> global_epoch s' = global_epoch s"
proof (cases x)
  case (Register b)
  from assms(4) have "registered a s" by (rule handle_epoch_registered)
  with Register assms(3) have "b \<noteq> a" by (auto split: if_splits)
  with Register assms(3,4) show ?thesis
    by (auto simp: create_reader_def handle_epoch_def Reader_ctor_def on_quiesce_def
        split: if_splits)
next
  case (Unregister b)
  with assms(2) have "b \<noteq> a" by simp
  with Unregister assms(3,4) show ?thesis
    by (auto simp: release_reader_def handle_epoch_def find_filter_addr split: if_splits)
next
  case (Quiesce b)
  with assms(3) have s': "s' = quiesce b s" by (auto split: if_splits)
  have "global_epoch (quiesce b s) = global_epoch s" by (simp add: quiesce_def)
  with assms(4) s' show ?thesis by (simp add: handle_epoch_quiesce)
next
  case (Retire g)
  with assms(3,4) show ?thesis by (auto simp: destroy_later_def handle_epoch_def)
next
  case Collect
  with assms(1) show ?thesis by simp
qed

lemma run_keeps_snapshot:
  "Collect \<notin> set ops \<Longrightarrow> Unregister a \<notin> set ops \<Longrightarrow> run gc s ops = Some s' \<Longrightarrow>
   handle_epoch a s = Some (global_epoch s) \<Longrightarrow>
     handle_epoch a s' = Some (global_epoch s) \<and> global_epoch s' = global_epoch s"
proof (induction ops arbitrary: s)
  case Nil
  then show ?case by simp
next
  case (Cons x ops)
  from Cons.prems(3) obtain s1 where s1: "step gc s x = Some s1" and r: "run gc s1 ops = Some s'"
    by (auto split: option.splits)
  from Cons.prems(1,2) have "x \<noteq> Collect" "x \<noteq> Unregister a" by auto
  from step_keeps_snapshot [OF this s1 Cons.prems(4)]
  have h: "handle_epoch a s1 = Some (global_epoch s)" and g: "global_epoch s1 = global_epoch s"
    by simp_all
  from Cons.prems(1,2) have "Collect \<notin> set ops" "Unregister a \<notin> set ops" by auto
  from Cons.IH [OF this r] h g show ?case by simp
qed

lemma quiesce_twice: "quiesce a (quiesce a s) = quiesce a s"
  by (simp add: quiesce_def on_quiesce_def comp_def)

lemma quiesce_funpow: "(quiesce a ^^ Suc n) s = quiesce a s"
  by (induction n) (simp_all add: quiesce_twice)

lemma kMagic_stale_front_reader:
  "run garbage_collect_kMagic qsbr_init_kMagic
      ([Register 1, Register 2, Collect, Retire ''B''] @ replicate 130 Collect @ [Quiesce 1, Collect])
     = Some \<lparr>global_epoch = 133, readers = [\<lparr>addr = 2, local = 1\<rparr>, \<lparr>addr = 1, local = 132\<rparr>],
         garbage = [\<lparr>epoch = 2, item = ''B''\<rparr>]\<rparr>
   \<and> garbage_collect_kMagic \<lparr>global_epoch = 133,
         readers = [\<lparr>addr = 2, local = 1\<rparr>, \<lparr>addr = 1, local = 132\<rparr>],
         garbage = [\<lparr>epoch = 2, item = ''B''\<rparr>]\<rparr>
     = Inr (129, \<lparr>global_epoch = 134,
         readers = [\<lparr>addr = 2, local = 1\<rparr>, \<lparr>addr = 1, local = 132\<rparr>], garbage = []\<rparr>)"
proof -
  let ?s1 = "\<lparr>global_epoch = 2, readers = [\<lparr>addr = 2, local = 1\<rparr>, \<lparr>addr = 1, local = 1\<rparr>],
         garbage = [\<lparr>epoch = 2, item = ''B''\<rparr>]\<rparr>"
  have a: "run garbage_collect_kMagic qsbr_init_kMagic [Register 1, Register 2, Collect, Retire ''B'']
      = Some ?s1"
    by (simp add: qsbr_eval)
  have "run garbage_collect_kMagic ?s1 (replicate 130 Collect)
      = Some (?s1\<lparr>global_epoch := global_epoch ?s1 + of_nat 130\<rparr>)"
    by (rule run_collect_kMagic_idle)
      (simp_all add: min_quiesced_epoch_def current_epoch_def Epoch_max_def kMagic_def)
  then have b: "run garbage_collect_kMagic ?s1 (replicate 130 Collect)
      = Some (?s1\<lparr>global_epoch := 132\<rparr>)"
    by simp
  have c: "run garbage_collect_kMagic (?s1\<lparr>global_epoch := 132\<rparr>) [Quiesce 1, Collect]
      = Some \<lparr>global_epoch = 133, readers = [\<lparr>addr = 2, local = 1\<rparr>, \<lparr>addr = 1, local = 132\<rparr>],
         garbage = [\<lparr>epoch = 2, item = ''B''\<rparr>]\<rparr>"
    by (simp add: qsbr_eval)
  have "run garbage_collect_kMagic qsbr_init_kMagic
      ([Register 1, Register 2, Collect, Retire ''B''] @ replicate 130 Collect @ [Quiesce 1, Collect])
     = Some \<lparr>global_epoch = 133, readers = [\<lparr>addr = 2, local = 1\<rparr>, \<lparr>addr = 1, local = 132\<rparr>],
         garbage = [\<lparr>epoch = 2, item = ''B''\<rparr>]\<rparr>"
    unfolding run_append a b c option.case ..
  then show ?thesis by (simp add: qsbr_eval)
qed

section \<open>Registration and quiescing\<close>

text \<open>
  Claim C9. \<^verbatim>\<open>create_reader()\<close> puts the new reader at the front of the registry and the
  constructor's own \<^verbatim>\<open>on_quiesce()\<close> has already run: read through the new handle,
  \<^verbatim>\<open>current_epoch()\<close> is the value of the global counter at registration, so the reader
  holds one snapshot without ever calling \<^verbatim>\<open>on_quiesce()\<close> itself. The counter and the
  queue are not touched.
\<close>

theorem create_reader_initial_quiesce:
  "readers (create_reader a s) = Reader_ctor a (global_epoch s) # readers s
   \<and> addr (Reader_ctor a (global_epoch s)) = a
   \<and> current_epoch (Reader_ctor a (global_epoch s)) = global_epoch s
   \<and> handle_epoch a (create_reader a s) = Some (global_epoch s)
   \<and> global_epoch (create_reader a s) = global_epoch s
   \<and> garbage (create_reader a s) = garbage s"
  by (simp add: create_reader_def Reader_ctor_def on_quiesce_def current_epoch_def
      handle_epoch_def)

text \<open>
  Claim C10. \<^verbatim>\<open>on_quiesce()\<close> does not move the global counter, and calling it \<open>n + 1\<close>
  times in a row through one handle leaves the instance, and so the epoch read through
  the handle, as the first call left it. The same holds when other calls come in between,
  as long as none of them is \<^verbatim>\<open>garbage_collect()\<close>, the only call that advances the counter,
  and the handle is not released: the epoch read through the handle stays what the first
  \<^verbatim>\<open>on_quiesce()\<close> stored, and one more \<^verbatim>\<open>on_quiesce()\<close> stores it again.
\<close>

theorem on_quiesce_idempotent:
  "on_quiesce g (on_quiesce g r) = on_quiesce g r
   \<and> global_epoch (quiesce a s) = global_epoch s
   \<and> (quiesce a ^^ Suc n) s = quiesce a s
   \<and> handle_epoch a ((quiesce a ^^ Suc n) s) = handle_epoch a (quiesce a s)
   \<and> (registered a s \<and> Collect \<notin> set ops \<and> Unregister a \<notin> set ops
        \<and> run gc (quiesce a s) ops = Some s'
      \<longrightarrow> handle_epoch a s' = handle_epoch a (quiesce a s)
        \<and> handle_epoch a (quiesce a s') = handle_epoch a (quiesce a s))"
proof -
  have "handle_epoch a s' = handle_epoch a (quiesce a s)
        \<and> handle_epoch a (quiesce a s') = handle_epoch a (quiesce a s)"
    if h: "registered a s" "Collect \<notin> set ops" "Unregister a \<notin> set ops"
      "run gc (quiesce a s) ops = Some s'"
  proof -
    have q: "handle_epoch a (quiesce a s) = Some (global_epoch s)"
      using h(1) by (rule handle_epoch_quiesce_registered)
    have "global_epoch (quiesce a s) = global_epoch s" by (simp add: quiesce_def)
    with q have "handle_epoch a (quiesce a s) = Some (global_epoch (quiesce a s))" by simp
    from run_keeps_snapshot [OF h(2,3,4) this]
    have e: "handle_epoch a s' = Some (global_epoch s)" and g: "global_epoch s' = global_epoch s"
      by (simp_all add: quiesce_def)
    from e have "registered a s'" by (rule handle_epoch_registered)
    then have "handle_epoch a (quiesce a s') = Some (global_epoch s')"
      by (rule handle_epoch_quiesce_registered)
    with e g q show ?thesis by simp
  qed
  moreover have "(quiesce a ^^ Suc n) s = quiesce a s" by (rule quiesce_funpow)
  moreover have "on_quiesce g (on_quiesce g r) = on_quiesce g r" by (simp add: on_quiesce_def)
  moreover have "global_epoch (quiesce a s) = global_epoch s" by (simp add: quiesce_def)
  ultimately show ?thesis by simp
qed

theorem on_quiesce_idempotent_witness:
  "registered 1 \<lparr>global_epoch = 7, readers = [\<lparr>addr = 2, local = 5\<rparr>, \<lparr>addr = 1, local = 3\<rparr>],
       garbage = [\<lparr>epoch = 4, item = ''A''\<rparr>]\<rparr>
   \<and> run gc_h (quiesce 1 \<lparr>global_epoch = 7,
       readers = [\<lparr>addr = 2, local = 5\<rparr>, \<lparr>addr = 1, local = 3\<rparr>],
       garbage = [\<lparr>epoch = 4, item = ''A''\<rparr>]\<rparr>)
       [Retire ''B'', Quiesce 2, Quiesce 1, Register 3, Unregister 2, Quiesce 1]
     = Some \<lparr>global_epoch = 7, readers = [\<lparr>addr = 3, local = 7\<rparr>, \<lparr>addr = 1, local = 7\<rparr>],
       garbage = [\<lparr>epoch = 4, item = ''A''\<rparr>, \<lparr>epoch = 7, item = ''B''\<rparr>]\<rparr>
   \<and> handle_epoch 1 (quiesce 1 \<lparr>global_epoch = 7,
       readers = [\<lparr>addr = 2, local = 5\<rparr>, \<lparr>addr = 1, local = 3\<rparr>],
       garbage = [\<lparr>epoch = 4, item = ''A''\<rparr>]\<rparr>) = Some 7
   \<and> handle_epoch 1 \<lparr>global_epoch = 7, readers = [\<lparr>addr = 3, local = 7\<rparr>, \<lparr>addr = 1, local = 7\<rparr>],
       garbage = [\<lparr>epoch = 4, item = ''A''\<rparr>, \<lparr>epoch = 7, item = ''B''\<rparr>]\<rparr> = Some 7"
proof -
  let ?s = "\<lparr>global_epoch = 7, readers = [\<lparr>addr = 2, local = 5\<rparr>, \<lparr>addr = 1, local = 3\<rparr>],
       garbage = [\<lparr>epoch = 4, item = ''A''\<rparr>]\<rparr>"
  let ?ops = "[Retire ''B'', Quiesce 2, Quiesce 1, Register 3, Unregister 2, Quiesce 1]"
  let ?s' = "\<lparr>global_epoch = 7, readers = [\<lparr>addr = 3, local = 7\<rparr>, \<lparr>addr = 1, local = 7\<rparr>],
       garbage = [\<lparr>epoch = 4, item = ''A''\<rparr>, \<lparr>epoch = 7, item = ''B''\<rparr>]\<rparr>"
  have h1: "registered 1 ?s" by (simp add: registered_def)
  have h2: "Collect \<notin> set ?ops" by simp
  have h3: "Unregister 1 \<notin> set ?ops" by simp
  have h4: "run gc_h (quiesce 1 ?s) ?ops = Some ?s'" by (simp add: qsbr_eval)
  have q: "handle_epoch 1 (quiesce 1 ?s) = Some 7" by (simp add: qsbr_eval)
  from on_quiesce_idempotent [of _ _ 1 ?s _ ?ops gc_h ?s'] h1 h2 h3 h4
  have "handle_epoch 1 ?s' = handle_epoch 1 (quiesce 1 ?s)" by blast
  with h1 h4 q show ?thesis by simp
qed

section \<open>The minimum skips the first reader\<close>

text \<open>
  Claim C4. With exactly one reader in the registry the loop of \<^verbatim>\<open>min_quiesced_epoch\<close>
  starts behind it, the result is the sentinel, and \<^verbatim>\<open>garbage_collect()\<close> leaves the queue
  as it is, whatever the reader's epoch, the counter and the queue are. This holds for
  both revisions of \<^verbatim>\<open>garbage_collect\<close>.
\<close>

theorem single_reader_collect_keeps_queue:
  "length (readers s) = 1 \<Longrightarrow>
     min_quiesced_epoch s = Epoch_max
     \<and> garbage (snd (garbage_collect s)) = garbage s
     \<and> pending_garbage (snd (garbage_collect s)) = pending_garbage s
     \<and> garbage_collect_kMagic s = Inr (0, s\<lparr>global_epoch := global_epoch s + 1\<rparr>)"
  by (simp add: min_quiesced_epoch_single garbage_collect_sentinel
      garbage_collect_kMagic_sentinel pending_garbage_def)

theorem single_reader_collect_keeps_queue_witness:
  "length (readers \<lparr>global_epoch = 9, readers = [\<lparr>addr = 1, local = 7\<rparr>],
       garbage = [\<lparr>epoch = 2, item = ''B''\<rparr>]\<rparr>) = 1
   \<and> pending_garbage (snd (garbage_collect \<lparr>global_epoch = 9,
        readers = [\<lparr>addr = 1, local = 7\<rparr>], garbage = [\<lparr>epoch = 2, item = ''B''\<rparr>]\<rparr>)) = 1
   \<and> garbage_collect_kMagic \<lparr>global_epoch = 9, readers = [\<lparr>addr = 1, local = 7\<rparr>],
        garbage = [\<lparr>epoch = 2, item = ''B''\<rparr>]\<rparr>
      = Inr (0, \<lparr>global_epoch = 10, readers = [\<lparr>addr = 1, local = 7\<rparr>],
        garbage = [\<lparr>epoch = 2, item = ''B''\<rparr>]\<rparr>)"
  using single_reader_collect_keeps_queue [of "\<lparr>global_epoch = 9,
     readers = [\<lparr>addr = 1, local = 7\<rparr>], garbage = [\<lparr>epoch = 2, item = ''B''\<rparr>]\<rparr>"]
  by (simp add: pending_garbage_def)

text \<open>
  Claim C5 at its failing input. After \<^verbatim>\<open>create_reader()\<close> on a fresh instance one reader
  is registered, and the minimum that \<^verbatim>\<open>garbage_collect()\<close> computes is the sentinel
  \<open>2 ^ 64 - 1\<close>, which is above the counter (0 in \<^verbatim>\<open>qsbr.h\<close>, 1 in the revision of
  \<^verbatim>\<open>README.txt\<close>, where only the first disjunct of the assertion lets the call pass).
\<close>

theorem single_reader_min_exceeds_global:
  "run gc_h qsbr_init [Register 1]
     = Some \<lparr>global_epoch = 0, readers = [\<lparr>addr = 1, local = 0\<rparr>], garbage = ([] :: string Trash list)\<rparr>
   \<and> min_quiesced_epoch \<lparr>global_epoch = 0, readers = [\<lparr>addr = 1, local = 0\<rparr>],
        garbage = ([] :: string Trash list)\<rparr> = 18446744073709551615
   \<and> \<not> min_quiesced_epoch \<lparr>global_epoch = 0, readers = [\<lparr>addr = 1, local = 0\<rparr>],
        garbage = ([] :: string Trash list)\<rparr>
       \<le> global_epoch \<lparr>global_epoch = 0, readers = [\<lparr>addr = 1, local = 0\<rparr>],
        garbage = ([] :: string Trash list)\<rparr>
   \<and> run garbage_collect_kMagic qsbr_init_kMagic [Register 1]
     = Some \<lparr>global_epoch = 1, readers = [\<lparr>addr = 1, local = 1\<rparr>], garbage = ([] :: string Trash list)\<rparr>
   \<and> min_quiesced_epoch \<lparr>global_epoch = 1, readers = [\<lparr>addr = 1, local = 1\<rparr>],
        garbage = ([] :: string Trash list)\<rparr> = 18446744073709551615
   \<and> \<not> min_quiesced_epoch \<lparr>global_epoch = 1, readers = [\<lparr>addr = 1, local = 1\<rparr>],
        garbage = ([] :: string Trash list)\<rparr>
       \<le> global_epoch \<lparr>global_epoch = 1, readers = [\<lparr>addr = 1, local = 1\<rparr>],
        garbage = ([] :: string Trash list)\<rparr>"
  by (simp add: qsbr_eval word_order.extremum_unique)

text \<open>
  Claim C1 at its failing input. Two readers register; the one registered last sits at
  the front of the registry and never quiesces again. In \<^verbatim>\<open>qsbr.h\<close> an object is retired
  at epoch 1, the other reader quiesces at epoch 3, and the collection at epoch 4 removes
  the entry although the front reader's epoch, 0, is below the entry's epoch, 1. In the
  revision of \<^verbatim>\<open>README.txt\<close> the same happens once the lag of 128 epochs has passed: the
  entry is retired at epoch 2, the other reader quiesces at epoch 132, and the collection
  at epoch 133 removes the entry while the front reader's epoch is 1.
\<close>

theorem stale_front_reader_entry_destroyed:
  "(run gc_h qsbr_init
      [Register 1, Register 2, Collect, Retire ''B'', Collect, Collect, Quiesce 1, Collect]
     = Some \<lparr>global_epoch = 4, readers = [\<lparr>addr = 2, local = 0\<rparr>, \<lparr>addr = 1, local = 3\<rparr>],
         garbage = [\<lparr>epoch = 1, item = ''B''\<rparr>]\<rparr>
   \<and> handle_epoch 2 \<lparr>global_epoch = 4, readers = [\<lparr>addr = 2, local = 0\<rparr>, \<lparr>addr = 1, local = 3\<rparr>],
         garbage = [\<lparr>epoch = 1, item = ''B''\<rparr>]\<rparr> = Some 0
   \<and> (0 :: Epoch) < epoch \<lparr>epoch = 1, item = ''B''\<rparr>
   \<and> garbage_collect \<lparr>global_epoch = 4, readers = [\<lparr>addr = 2, local = 0\<rparr>, \<lparr>addr = 1, local = 3\<rparr>],
         garbage = [\<lparr>epoch = 1, item = ''B''\<rparr>]\<rparr>
     = (2, \<lparr>global_epoch = 5, readers = [\<lparr>addr = 2, local = 0\<rparr>, \<lparr>addr = 1, local = 3\<rparr>],
         garbage = []\<rparr>))
   \<and> (run garbage_collect_kMagic qsbr_init_kMagic
      ([Register 1, Register 2, Collect, Retire ''B''] @ replicate 130 Collect @ [Quiesce 1, Collect])
     = Some \<lparr>global_epoch = 133, readers = [\<lparr>addr = 2, local = 1\<rparr>, \<lparr>addr = 1, local = 132\<rparr>],
         garbage = [\<lparr>epoch = 2, item = ''B''\<rparr>]\<rparr>
   \<and> garbage_collect_kMagic \<lparr>global_epoch = 133,
         readers = [\<lparr>addr = 2, local = 1\<rparr>, \<lparr>addr = 1, local = 132\<rparr>],
         garbage = [\<lparr>epoch = 2, item = ''B''\<rparr>]\<rparr>
     = Inr (129, \<lparr>global_epoch = 134,
         readers = [\<lparr>addr = 2, local = 1\<rparr>, \<lparr>addr = 1, local = 132\<rparr>], garbage = []\<rparr>))"
proof
  show "run gc_h qsbr_init
      [Register 1, Register 2, Collect, Retire ''B'', Collect, Collect, Quiesce 1, Collect]
     = Some \<lparr>global_epoch = 4, readers = [\<lparr>addr = 2, local = 0\<rparr>, \<lparr>addr = 1, local = 3\<rparr>],
         garbage = [\<lparr>epoch = 1, item = ''B''\<rparr>]\<rparr>
   \<and> handle_epoch 2 \<lparr>global_epoch = 4, readers = [\<lparr>addr = 2, local = 0\<rparr>, \<lparr>addr = 1, local = 3\<rparr>],
         garbage = [\<lparr>epoch = 1, item = ''B''\<rparr>]\<rparr> = Some 0
   \<and> (0 :: Epoch) < epoch \<lparr>epoch = 1, item = ''B''\<rparr>
   \<and> garbage_collect \<lparr>global_epoch = 4, readers = [\<lparr>addr = 2, local = 0\<rparr>, \<lparr>addr = 1, local = 3\<rparr>],
         garbage = [\<lparr>epoch = 1, item = ''B''\<rparr>]\<rparr>
     = (2, \<lparr>global_epoch = 5, readers = [\<lparr>addr = 2, local = 0\<rparr>, \<lparr>addr = 1, local = 3\<rparr>],
         garbage = []\<rparr>)"
    by (simp add: qsbr_eval)
qed (rule kMagic_stale_front_reader)

text \<open>
  Claim C2 at its failing input. On a fresh instance, with no reader registered, an
  object is retired and \<^verbatim>\<open>garbage_collect()\<close> is called once: the sentinel is not below
  the counter, nothing is trimmed and \<^verbatim>\<open>pending_garbage()\<close> is 1, in both revisions.
\<close>

theorem no_reader_collect_keeps_garbage:
  "run gc_h qsbr_init [Retire ''A'', Collect]
     = Some \<lparr>global_epoch = 1, readers = [], garbage = [\<lparr>epoch = 0, item = ''A''\<rparr>]\<rparr>
   \<and> pending_garbage \<lparr>global_epoch = 1, readers = [], garbage = [\<lparr>epoch = 0, item = ''A''\<rparr>]\<rparr> = 1
   \<and> run garbage_collect_kMagic qsbr_init_kMagic [Retire ''A'', Collect]
     = Some \<lparr>global_epoch = 2, readers = [], garbage = [\<lparr>epoch = 1, item = ''A''\<rparr>]\<rparr>
   \<and> pending_garbage \<lparr>global_epoch = 2, readers = [], garbage = [\<lparr>epoch = 1, item = ''A''\<rparr>]\<rparr> = 1"
  by (simp add: qsbr_eval)

section \<open>The scenario with one reader\<close>

text \<open>
  Claim C3 as stated fails. One reader registers on a fresh instance, an object B is
  retired, \<^verbatim>\<open>garbage_collect()\<close> runs, the reader quiesces and \<^verbatim>\<open>garbage_collect()\<close> runs
  again: B is still in the queue, in the revision of \<^verbatim>\<open>README.txt\<close> (counter 1, 2, 3) and
  in \<^verbatim>\<open>qsbr.h\<close> (counter 0, 1, 2).
\<close>

theorem one_reader_scenario_counterexample:
  "run garbage_collect_kMagic qsbr_init_kMagic
      [Register 1, Retire ''B'', Collect, Quiesce 1, Collect]
     = Some \<lparr>global_epoch = 3, readers = [\<lparr>addr = 1, local = 2\<rparr>],
         garbage = [\<lparr>epoch = 1, item = ''B''\<rparr>]\<rparr>
   \<and> run gc_h qsbr_init [Register 1, Retire ''B'', Collect, Quiesce 1, Collect]
     = Some \<lparr>global_epoch = 2, readers = [\<lparr>addr = 1, local = 1\<rparr>],
         garbage = [\<lparr>epoch = 0, item = ''B''\<rparr>]\<rparr>
   \<and> pending_garbage \<lparr>global_epoch = 3, readers = [\<lparr>addr = 1, local = 2\<rparr>],
         garbage = [\<lparr>epoch = 1, item = ''B''\<rparr>]\<rparr> \<noteq> 0"
  by (simp add: qsbr_eval)

text \<open>
  Claim C3, amended. The scenario step by step. In the revision of \<^verbatim>\<open>README.txt\<close> the
  reader registers with epoch 1, B is tagged with epoch 1, the first collection moves
  the counter to 2 and leaves B pending, the reader quiesces and observes 2, the second
  collection moves the counter to 3, and \<^verbatim>\<open>pending_garbage()\<close> is still 1. In \<^verbatim>\<open>qsbr.h\<close> the
  same holds with the epochs 0, 1 and 2.
\<close>

theorem one_reader_scenario:
  "map_option (handle_epoch 1) (run garbage_collect_kMagic (qsbr_init_kMagic :: string qsbr) [Register 1])
     = Some (Some 1)
   \<and> map_option garbage (run garbage_collect_kMagic qsbr_init_kMagic [Register 1, Retire ''B''])
     = Some [\<lparr>epoch = 1, item = ''B''\<rparr>]
   \<and> run garbage_collect_kMagic qsbr_init_kMagic [Register 1, Retire ''B'', Collect]
     = Some \<lparr>global_epoch = 2, readers = [\<lparr>addr = 1, local = 1\<rparr>],
         garbage = [\<lparr>epoch = 1, item = ''B''\<rparr>]\<rparr>
   \<and> run garbage_collect_kMagic qsbr_init_kMagic [Register 1, Retire ''B'', Collect, Quiesce 1]
     = Some \<lparr>global_epoch = 2, readers = [\<lparr>addr = 1, local = 2\<rparr>],
         garbage = [\<lparr>epoch = 1, item = ''B''\<rparr>]\<rparr>
   \<and> map_option pending_garbage (run garbage_collect_kMagic qsbr_init_kMagic
        [Register 1, Retire ''B'', Collect, Quiesce 1, Collect]) = Some 1
   \<and> map_option global_epoch (run garbage_collect_kMagic qsbr_init_kMagic
        [Register 1, Retire ''B'', Collect, Quiesce 1, Collect]) = Some 3
   \<and> map_option (handle_epoch 1) (run gc_h (qsbr_init :: string qsbr) [Register 1]) = Some (Some 0)
   \<and> run gc_h qsbr_init [Register 1, Retire ''B'', Collect]
     = Some \<lparr>global_epoch = 1, readers = [\<lparr>addr = 1, local = 0\<rparr>],
         garbage = [\<lparr>epoch = 0, item = ''B''\<rparr>]\<rparr>
   \<and> run gc_h qsbr_init [Register 1, Retire ''B'', Collect, Quiesce 1]
     = Some \<lparr>global_epoch = 1, readers = [\<lparr>addr = 1, local = 1\<rparr>],
         garbage = [\<lparr>epoch = 0, item = ''B''\<rparr>]\<rparr>
   \<and> map_option pending_garbage (run gc_h qsbr_init
        [Register 1, Retire ''B'', Collect, Quiesce 1, Collect]) = Some 1
   \<and> map_option global_epoch (run gc_h qsbr_init
        [Register 1, Retire ''B'', Collect, Quiesce 1, Collect]) = Some 2"
  by (simp add: qsbr_eval)

section \<open>Trimming and the number returned\<close>




text \<open>
  Claim C7 as stated fails. In \<^verbatim>\<open>qsbr.h\<close>, reached from a fresh instance: two readers with
  epoch 0, the counter is 1 and one entry is pending; \<^verbatim>\<open>garbage_collect()\<close> does not enter
  the trimming branch, removes nothing and returns 1. In the revision of \<^verbatim>\<open>README.txt\<close> a
  call that enters the trimming branch and finds no entry old enough removes nothing
  and returns 178.
\<close>

theorem garbage_collect_returns_lag_counterexample:
  "run gc_h qsbr_init [Register 1, Register 2, Retire ''A'', Collect]
     = Some \<lparr>global_epoch = 1, readers = [\<lparr>addr = 2, local = 0\<rparr>, \<lparr>addr = 1, local = 0\<rparr>],
         garbage = [\<lparr>epoch = 0, item = ''A''\<rparr>]\<rparr>
   \<and> garbage_collect \<lparr>global_epoch = 1,
         readers = [\<lparr>addr = 2, local = 0\<rparr>, \<lparr>addr = 1, local = 0\<rparr>],
         garbage = [\<lparr>epoch = 0, item = ''A''\<rparr>]\<rparr>
     = (1, \<lparr>global_epoch = 2, readers = [\<lparr>addr = 2, local = 0\<rparr>, \<lparr>addr = 1, local = 0\<rparr>],
         garbage = [\<lparr>epoch = 0, item = ''A''\<rparr>]\<rparr>)
   \<and> garbage_collect_kMagic \<lparr>global_epoch = 200,
         readers = [\<lparr>addr = 2, local = 150\<rparr>, \<lparr>addr = 1, local = 150\<rparr>],
         garbage = [\<lparr>epoch = 100, item = ''A''\<rparr>]\<rparr>
     = Inr (178, \<lparr>global_epoch = 201,
         readers = [\<lparr>addr = 2, local = 150\<rparr>, \<lparr>addr = 1, local = 150\<rparr>],
         garbage = [\<lparr>epoch = 100, item = ''A''\<rparr>]\<rparr>)"
  by (simp add: qsbr_eval)

text \<open>
  Claim C7, amended. \<^verbatim>\<open>garbage_collect()\<close> of \<^verbatim>\<open>qsbr.h\<close> returns the counter's value before the
  increment minus the epoch \<open>m - 1\<close> used for trimming when it trims (the computed minimum
  \<open>m\<close> is above 0 and below the counter), the counter's value minus \<open>m\<close> when it does not
  trim and \<open>m\<close> is below the counter (then \<open>m\<close> is 0), and 0 otherwise. The revision of
  \<^verbatim>\<open>README.txt\<close>, unless its assertion fails, returns the counter's value minus
  \<open>m - kMagic\<close> when it trims and 0 otherwise.
\<close>

theorem garbage_collect_returns_lag:
  "fst (garbage_collect s) =
     (if 0 < min_quiesced_epoch s \<and> min_quiesced_epoch s < global_epoch s
      then global_epoch s - (min_quiesced_epoch s - 1)
      else if min_quiesced_epoch s < global_epoch s
      then global_epoch s - min_quiesced_epoch s else 0)
   \<and> (garbage_collect_kMagic s = Inl AssertionFailed
      \<or> map_sum id fst (garbage_collect_kMagic s) =
         Inr (if kMagic < min_quiesced_epoch s \<and> min_quiesced_epoch s < global_epoch s
              then global_epoch s - (min_quiesced_epoch s - kMagic) else 0))"
proof -
  have "fst (garbage_collect s) =
     (if 0 < min_quiesced_epoch s \<and> min_quiesced_epoch s < global_epoch s
      then global_epoch s - (min_quiesced_epoch s - 1)
      else if min_quiesced_epoch s < global_epoch s
      then global_epoch s - min_quiesced_epoch s else 0)"
  proof (cases "0 < min_quiesced_epoch s \<and> min_quiesced_epoch s < global_epoch s")
    case True
    then show ?thesis by (simp add: garbage_collect_trim)
  next
    case False
    then show ?thesis by (auto simp: garbage_collect_def Let_def)
  qed
  moreover have "garbage_collect_kMagic s = Inl AssertionFailed
      \<or> map_sum id fst (garbage_collect_kMagic s) =
         Inr (if kMagic < min_quiesced_epoch s \<and> min_quiesced_epoch s < global_epoch s
              then global_epoch s - (min_quiesced_epoch s - kMagic) else 0)"
    by (simp add: garbage_collect_kMagic_def Let_def)
  ultimately show ?thesis by (rule conjI)
qed

theorem garbage_collect_returns_lag_witness:
  "fst (garbage_collect \<lparr>global_epoch = 200,
       readers = [\<lparr>addr = 2, local = 5\<rparr>, \<lparr>addr = 1, local = 130\<rparr>],
       garbage = [\<lparr>epoch = 1, item = ''A''\<rparr>, \<lparr>epoch = 150, item = ''D''\<rparr>]\<rparr>) = 71
   \<and> map_sum id fst (garbage_collect_kMagic \<lparr>global_epoch = 200,
       readers = [\<lparr>addr = 2, local = 5\<rparr>, \<lparr>addr = 1, local = 130\<rparr>],
       garbage = [\<lparr>epoch = 1, item = ''A''\<rparr>, \<lparr>epoch = 150, item = ''D''\<rparr>]\<rparr>) = Inr 198"
proof -
  let ?s = "\<lparr>global_epoch = 200,
       readers = [\<lparr>addr = 2, local = 5\<rparr>, \<lparr>addr = 1, local = 130\<rparr>],
       garbage = [\<lparr>epoch = 1, item = ''A''\<rparr>, \<lparr>epoch = 150, item = ''D''\<rparr>]\<rparr>"
  have m: "min_quiesced_epoch ?s = 130"
    by (simp add: min_quiesced_epoch_def current_epoch_def Epoch_max_def)
  have a: "garbage_collect_kMagic ?s \<noteq> Inl AssertionFailed"
    by (simp add: garbage_collect_kMagic_def Let_def min_quiesced_epoch_def current_epoch_def
        Epoch_max_def kMagic_def)
  from garbage_collect_returns_lag [of ?s] a show ?thesis
    by (simp add: kMagic_def min_quiesced_epoch_def current_epoch_def Epoch_max_def)
qed

section \<open>The order of the garbage queue\<close>

text \<open>
  Claim C8 as stated fails at the wrap-around of the 64-bit counter. On a fresh instance
  of \<^verbatim>\<open>qsbr.h\<close>: one collection, an object retired at epoch 1, \<open>2 ^ 64 - 1\<close> more collections
  with no reader registered, which remove nothing and bring the counter back to 0, and
  an object retired at epoch 0. The queue holds the epochs 1, 0.
\<close>

theorem garbage_epochs_sorted_counterexample:
  "run gc_h qsbr_init ([Collect, Retire ''A''] @ replicate (2 ^ 64 - 1) Collect @ [Retire ''B''])
     = Some \<lparr>global_epoch = 0, readers = [],
         garbage = [\<lparr>epoch = 1, item = ''A''\<rparr>, \<lparr>epoch = 0, item = ''B''\<rparr>]\<rparr>
   \<and> \<not> sorted (map epoch [\<lparr>epoch = 1, item = ''A''\<rparr>, \<lparr>epoch = (0 :: Epoch), item = ''B''\<rparr>])"
proof -
  let ?s1 = "\<lparr>global_epoch = 1, readers = [], garbage = [\<lparr>epoch = 1, item = ''A''\<rparr>]\<rparr>"
  have a: "run gc_h qsbr_init [Collect, Retire ''A''] = Some ?s1"
    by (simp add: qsbr_eval)
  have w: "(1 :: Epoch) + of_nat (2 ^ 64 - 1) = 0"
  proof -
    have "(of_nat (2 ^ 64 - 1) :: Epoch) = of_nat (2 ^ 64) - 1"
      by (simp add: of_nat_diff)
    then show ?thesis by simp
  qed
  have "run gc_h ?s1 (replicate (2 ^ 64 - 1) Collect)
      = Some (?s1\<lparr>global_epoch := global_epoch ?s1 + of_nat (2 ^ 64 - 1)\<rparr>)"
    by (rule run_collect_no_readers) simp
  then have b: "run gc_h ?s1 (replicate (2 ^ 64 - 1) Collect) = Some (?s1\<lparr>global_epoch := 0\<rparr>)"
    using w by simp
  have c: "run gc_h (?s1\<lparr>global_epoch := 0\<rparr>) [Retire ''B'']
      = Some \<lparr>global_epoch = 0, readers = [],
         garbage = [\<lparr>epoch = 1, item = ''A''\<rparr>, \<lparr>epoch = 0, item = ''B''\<rparr>]\<rparr>"
    by (simp add: destroy_later_def)
  have "run gc_h qsbr_init ([Collect, Retire ''A''] @ replicate (2 ^ 64 - 1) Collect @ [Retire ''B''])
     = Some \<lparr>global_epoch = 0, readers = [],
         garbage = [\<lparr>epoch = 1, item = ''A''\<rparr>, \<lparr>epoch = 0, item = ''B''\<rparr>]\<rparr>"
    unfolding run_append a b c option.case ..
  then show ?thesis by simp
qed

text \<open>
  Claim C8, amended. In every state reached from a fresh instance by calls of which fewer
  than \<open>2 ^ 64\<close> are \<^verbatim>\<open>garbage_collect()\<close> (fewer than \<open>2 ^ 64 - 1\<close> in the revision of
  \<^verbatim>\<open>README.txt\<close>, whose counter starts at 1), the epochs of the queue's entries are in
  non-decreasing order from front to back. \<^verbatim>\<open>destroy_later\<close> appends one entry tagged with
  the current epoch at the back, and \<^verbatim>\<open>garbage_collect\<close> removes entries at the front only.
\<close>

theorem garbage_epochs_sorted_until_wrap:
  "(run gc_h qsbr_init ops = Some s \<and> count_list ops Collect < 2 ^ 64
      \<longrightarrow> sorted (map epoch (garbage s)))
   \<and> (run garbage_collect_kMagic qsbr_init_kMagic ops = Some s \<and> count_list ops Collect < 2 ^ 64 - 1
      \<longrightarrow> sorted (map epoch (garbage s)))
   \<and> garbage (destroy_later g t) = garbage t @ [\<lparr>epoch = global_epoch t, item = g\<rparr>]
   \<and> (\<exists>k. garbage (snd (garbage_collect t)) = drop k (garbage t))
   \<and> (garbage_collect_kMagic t = Inr (n, t') \<longrightarrow> (\<exists>k. garbage t' = drop k (garbage t)))"
proof -
  have "sorted (map epoch (garbage s))"
    if "run gc_h qsbr_init ops = Some s" "count_list ops Collect < 2 ^ 64"
  proof -
    have "unat (global_epoch (qsbr_init :: 'a qsbr)) + count_list ops Collect < 2 ^ 64"
      using that(2) by (simp add: qsbr_init_def)
    with advances_gc_h queue_inv_init(1) that(1) have "queue_inv s"
      using run_queue_inv by blast
    then show ?thesis by (simp add: queue_inv_def)
  qed
  moreover have "sorted (map epoch (garbage s))"
    if "run garbage_collect_kMagic qsbr_init_kMagic ops = Some s"
      "count_list ops Collect < 2 ^ 64 - 1"
  proof -
    have "unat (global_epoch (qsbr_init_kMagic :: 'a qsbr)) + count_list ops Collect < 2 ^ 64"
      using that(2) by (simp add: qsbr_init_kMagic_def)
    with advances_kMagic queue_inv_init(2) that(1) have "queue_inv s"
      using run_queue_inv by blast
    then show ?thesis by (simp add: queue_inv_def)
  qed
  moreover have "garbage (destroy_later g t) = garbage t @ [\<lparr>epoch = global_epoch t, item = g\<rparr>]"
    by (simp add: destroy_later_def)
  moreover note garbage_collect_effect(3) [of t]
  moreover have "garbage_collect_kMagic t = Inr (n, t') \<longrightarrow> (\<exists>k. garbage t' = drop k (garbage t))"
    using garbage_collect_kMagic_effect(3) by blast
  ultimately show ?thesis by blast
qed

theorem garbage_epochs_sorted_until_wrap_witness:
  "run gc_h qsbr_init
     [Register 1, Register 2, Retire ''A'', Collect, Retire ''B'', Collect, Collect, Quiesce 1,
      Retire ''C'', Collect, Collect, Retire ''D'']
    = Some \<lparr>global_epoch = 5, readers = [\<lparr>addr = 2, local = 0\<rparr>, \<lparr>addr = 1, local = 3\<rparr>],
        garbage = [\<lparr>epoch = 3, item = ''C''\<rparr>, \<lparr>epoch = 5, item = ''D''\<rparr>]\<rparr>
   \<and> count_list [Register 1, Register 2, Retire ''A'', Collect, Retire ''B'', Collect, Collect,
        Quiesce 1, Retire ''C'', Collect, Collect, Retire ''D''] Collect < (2 :: nat) ^ 64
   \<and> run garbage_collect_kMagic qsbr_init_kMagic
     [Register 1, Register 2, Retire ''A'', Collect, Retire ''B'', Collect, Collect, Quiesce 1,
      Retire ''C'', Collect, Collect, Retire ''D'']
    = Some \<lparr>global_epoch = 6, readers = [\<lparr>addr = 2, local = 1\<rparr>, \<lparr>addr = 1, local = 4\<rparr>],
        garbage = [\<lparr>epoch = 1, item = ''A''\<rparr>, \<lparr>epoch = 2, item = ''B''\<rparr>,
                   \<lparr>epoch = 4, item = ''C''\<rparr>, \<lparr>epoch = 6, item = ''D''\<rparr>]\<rparr>
   \<and> sorted (map epoch [\<lparr>epoch = 3, item = ''C''\<rparr>, \<lparr>epoch = 5, item = ''D''\<rparr>])
   \<and> sorted (map epoch [\<lparr>epoch = 1, item = ''A''\<rparr>, \<lparr>epoch = 2, item = ''B''\<rparr>,
                   \<lparr>epoch = 4, item = ''C''\<rparr>, \<lparr>epoch = 6, item = ''D''\<rparr>])"
proof -
  let ?ops = "[Register 1, Register 2, Retire ''A'', Collect, Retire ''B'', Collect, Collect,
      Quiesce 1, Retire ''C'', Collect, Collect, Retire ''D'']"
  let ?s = "\<lparr>global_epoch = 5, readers = [\<lparr>addr = 2, local = 0\<rparr>, \<lparr>addr = 1, local = 3\<rparr>],
        garbage = [\<lparr>epoch = 3, item = ''C''\<rparr>, \<lparr>epoch = 5, item = ''D''\<rparr>]\<rparr>"
  let ?t = "\<lparr>global_epoch = 6, readers = [\<lparr>addr = 2, local = 1\<rparr>, \<lparr>addr = 1, local = 4\<rparr>],
        garbage = [\<lparr>epoch = 1, item = ''A''\<rparr>, \<lparr>epoch = 2, item = ''B''\<rparr>,
                   \<lparr>epoch = 4, item = ''C''\<rparr>, \<lparr>epoch = 6, item = ''D''\<rparr>]\<rparr>"
  have r1: "run gc_h qsbr_init ?ops = Some ?s" by (simp add: qsbr_eval)
  have r2: "run garbage_collect_kMagic qsbr_init_kMagic ?ops = Some ?t" by (simp add: qsbr_eval)
  have c: "count_list ?ops Collect < (2 :: nat) ^ 64" by simp
  then have c': "count_list ?ops Collect < (2 :: nat) ^ 64 - 1" by simp
  have "sorted (map epoch (garbage ?s))"
    using garbage_epochs_sorted_until_wrap [of ?ops ?s, THEN conjunct1] r1 c by blast
  moreover have "sorted (map epoch (garbage ?t))"
    using garbage_epochs_sorted_until_wrap [of ?ops ?t, THEN conjunct2, THEN conjunct1] r2 c'
    by blast
  ultimately show ?thesis using r1 r2 c by simp
qed

end
